theory Spec2Isabelle
  imports Complex_Main "HOL-Library.AList"
begin

section \<open>JavaScript values and objects\<close>

text \<open>
  The values that flow through the editing view: field data decoded from the server's JSON
  and the values the widgets hand to \<^verbatim>\<open>onChange\<close>. Finite numbers are reals; the
  two kinds of non-finite number are separate constructors, since they differ in truthiness.
  \<open>JBuiltin k\<close> is the value of the property \<open>k\<close> of \<^verbatim>\<open>Object.prototype\<close>: a function
  for every name but \<^verbatim>\<open>__proto__\<close>, whose getter returns the prototype object itself; of
  these only \<open>JBuiltin ''constructor''\<close>, the function \<^verbatim>\<open>Object\<close>, can be called with
  \<^verbatim>\<open>new\<close>. An object is the association list of its own properties, one entry per key;
  every object the view reads has \<^verbatim>\<open>Object.prototype\<close> as its prototype.
\<close>

datatype jsval =
    JUndefined
  | JNull
  | JBool bool
  | JNum real
  | JNaN
  | JInfinity bool
  | JStr string
  | JArr "jsval list"
  | JObj "(string \<times> jsval) list"
  | JBuiltin string

type_synonym jsobject = "(string \<times> jsval) list"

text \<open>ToBoolean: the falsy values are undefined, null, false, 0, NaN and the empty string.\<close>

fun truthy :: "jsval \<Rightarrow> bool" where
  "truthy JUndefined = False"
| "truthy JNull = False"
| "truthy (JBool b) = b"
| "truthy (JNum r) = (r \<noteq> 0)"
| "truthy JNaN = False"
| "truthy (JInfinity _) = True"
| "truthy (JStr s) = (s \<noteq> [])"
| "truthy (JArr _) = True"
| "truthy (JObj _) = True"
| "truthy (JBuiltin _) = True"

text \<open>\<^verbatim>\<open>a || b\<close>\<close>

definition js_or :: "jsval \<Rightarrow> jsval \<Rightarrow> jsval" where
  "js_or a b = (if truthy a then a else b)"

text \<open>
  The names \<^verbatim>\<open>Object.prototype\<close> defines: those of the language standard and the legacy
  ones the engines add.
\<close>

definition object_prototype_keys :: "string list" where
  "object_prototype_keys =
     [''constructor'', ''toString'', ''toLocaleString'', ''valueOf'', ''hasOwnProperty'',
      ''isPrototypeOf'', ''propertyIsEnumerable'', ''__proto__'', ''__defineGetter__'',
      ''__defineSetter__'', ''__lookupGetter__'', ''__lookupSetter__'']"

text \<open>
  \<^verbatim>\<open>obj[k]\<close>: an own property first, then the property of the prototype; a name that
  neither has reads as undefined.
\<close>

definition jsget :: "jsobject \<Rightarrow> string \<Rightarrow> jsval" where
  "jsget obj k =
     (case map_of obj k of
        Some v \<Rightarrow> v
      | None \<Rightarrow> if k \<in> set object_prototype_keys then JBuiltin k else JUndefined)"

text \<open>
  \<^verbatim>\<open>obj[k] = v\<close>: an existing key keeps its place, a new key goes last. For the name
  \<^verbatim>\<open>__proto__\<close> on an object without such a property of its own, the assignment goes to
  the setter of the prototype and creates no property. (The setter replaces the prototype
  when the value is an object or null; the one object this can happen to is the result of
  \<^verbatim>\<open>getValues\<close>, which the code here does not read.)
\<close>

definition jsset :: "string \<Rightarrow> jsval \<Rightarrow> jsobject \<Rightarrow> jsobject" where
  "jsset k v obj =
     (if k = ''__proto__'' \<and> map_of obj k = None then obj else AList.update k v obj)"

text \<open>A \<^verbatim>\<open>TypeError\<close> of the engine, and the error a failed \<^verbatim>\<open>invariant\<close> of React throws.\<close>

datatype error = TypeError | InvariantViolation

section \<open>EditPage.jsx\<close>

subsection \<open>Data\<close>

text \<open>
  A field descriptor of the data model, the \<^verbatim>\<open>record_info\<close> of a record and the
  response of \<^verbatim>\<open>/rawrecord\<close>. The selectors of \<^verbatim>\<open>record_info\<close> carry the prefix
  \<^verbatim>\<open>ri_\<close> to keep them apart from those of a field descriptor.
\<close>

record field_descriptor =
  name :: string
  label :: string
  type :: string

text \<open>The selector for \<^verbatim>\<open>datamodel.fields\<close> is \<open>model_fields\<close>.\<close>

record datamodel =
  model_fields :: "field_descriptor list"

record record_info =
  ri_exists :: bool
  ri_label :: string
  ri_id :: string

record response =
  data :: jsobject
  datamodel :: datamodel
  record_info :: record_info

text \<open>
  The component state of \<^verbatim>\<open>getInitialState\<close>; \<^verbatim>\<open>null\<close> is \<open>None\<close>. The type
  parameter is how \<^verbatim>\<open>recordData\<close> is held: as the object itself, or as a reference
  into a store of objects where the identity of the object matters.
\<close>

record 'r state =
  recordInitialData :: "jsobject option"
  recordData :: "'r option"
  recordDataModel :: "datamodel option"
  recordInfo :: "record_info option"

definition getInitialState :: "'r state" where
  "getInitialState =
     \<lparr>recordInitialData = None, recordData = None, recordDataModel = None, recordInfo = None\<rparr>"

text \<open>
  A widget component of \<^verbatim>\<open>../widgets\<close>, as far as the view uses it: its two optional
  conversion hooks. The registry \<^verbatim>\<open>getWidgetComponentWithFallback\<close> is not part of the
  sources at hand and is a parameter \<open>W\<close> of every function that consults it.
\<close>

record widget =
  serializeValue :: "(jsval \<Rightarrow> jsval) option"
  deserializeValue :: "(jsval \<Rightarrow> jsval) option"

type_synonym registry = "string \<Rightarrow> widget"

subsection \<open>Hidden fields\<close>

definition isHiddenField :: "string \<Rightarrow> bool" where
  "isHiddenField n =
     (if n = ''_path'' then True
      else if n = ''_gid'' then True
      else if n = ''_model'' then True
      else if n = ''_attachment_for'' then True
      else if n = ''_attachment_type'' then True
      else False)"

subsection \<open>Loading\<close>

text \<open>
  The callback \<^verbatim>\<open>syncEditor\<close> passes to \<^verbatim>\<open>then\<close>. \<^verbatim>\<open>setState\<close> is given all four
  keys of the state.
\<close>

definition syncEditor_then :: "response \<Rightarrow> jsobject state \<Rightarrow> jsobject state" where
  "syncEditor_then resp s =
     s\<lparr>recordInitialData := Some (data resp),
       recordData := Some [],
       recordDataModel := Some (datamodel resp),
       recordInfo := Some (record_info resp)\<rparr>"

text \<open>
  A settled promise, and \<^verbatim>\<open>promise.then(cb)\<close> with a single argument: the callback
  runs on fulfilment, nothing runs on rejection.
\<close>

datatype 'a settled = Fulfilled 'a | Rejected string

fun promise_then :: "('a \<Rightarrow> 's \<Rightarrow> 's) \<Rightarrow> 'a settled \<Rightarrow> 's \<Rightarrow> 's" where
  "promise_then cb (Fulfilled r) s = cb r s"
| "promise_then cb (Rejected e) s = s"

subsection \<open>Editing\<close>

text \<open>
  \<^verbatim>\<open>React.addons.update\<close> is a library, not part of the sources at hand; what follows is
  its implementation (\<^verbatim>\<open>update.js\<close> and \<^verbatim>\<open>Object.assign.js\<close> of React 0.13) on the one
  shape of call \<open>onValueChange\<close> makes. The keys it reads as commands:
\<close>

definition update_command :: "string \<Rightarrow> bool" where
  "update_command k =
     (k \<in> set [''$push'', ''$unshift'', ''$splice'', ''$set'', ''$merge'', ''$apply''])"

text \<open>
  \<^verbatim>\<open>shallowCopy(x)\<close> for an object: \<^verbatim>\<open>assign(new x.constructor(), x)\<close>. The constructor
  is the function \<^verbatim>\<open>Object\<close> unless \<open>x\<close> has a property \<^verbatim>\<open>constructor\<close> of its own, and
  \<^verbatim>\<open>new\<close> on a value that is not a constructor throws. \<^verbatim>\<open>assign\<close> writes each own
  property of \<open>x\<close> into the new object with \<^verbatim>\<open>to[key] = from[key]\<close>, which for the key
  \<^verbatim>\<open>__proto__\<close> creates no property. (\<^verbatim>\<open>recordData\<close> starts as \<^verbatim>\<open>{}\<close> and only
  \<^verbatim>\<open>update\<close> adds to it, so it never has a property \<^verbatim>\<open>__proto__\<close> of its own.)
\<close>

definition shallowCopy :: "jsobject \<Rightarrow> error + jsobject" where
  "shallowCopy x =
     (case map_of x ''constructor'' of
        None \<Rightarrow> Inr (filter (\<lambda>kv. fst kv \<noteq> ''__proto__'') x)
      | Some c \<Rightarrow>
          if c = JBuiltin ''constructor'' then Inr (filter (\<lambda>kv. fst kv \<noteq> ''__proto__'') x)
          else Inl TypeError)"

text \<open>
  \<^verbatim>\<open>update(target, updates)\<close> after \<^verbatim>\<open>var updates = {}; updates[k] = {$set: v}\<close>, with
  \<^verbatim>\<open>null\<close> as \<open>None\<close>, in the order of \<^verbatim>\<open>update.js\<close>:
  \<^item> for \<open>k\<close> = \<^verbatim>\<open>$set\<close> the spec is itself a \<^verbatim>\<open>$set\<close> command, and its argument, the
    object \<^verbatim>\<open>{$set: v}\<close>, is returned before the target is looked at;
  \<^item> otherwise the target is copied (\<^verbatim>\<open>null\<close> is returned as it is);
  \<^item> for \<open>k\<close> = \<^verbatim>\<open>$merge\<close> the object \<^verbatim>\<open>{$set: v}\<close> is merged into the copy, which must
    be an object; for \<^verbatim>\<open>$push\<close>, \<^verbatim>\<open>$unshift\<close> and \<^verbatim>\<open>$splice\<close> the target must be an array
    and for \<^verbatim>\<open>$apply\<close> the argument a function, neither of which holds;
  \<^item> for \<open>k\<close> = \<^verbatim>\<open>__proto__\<close> the assignment \<^verbatim>\<open>updates[k] = ...\<close> has given \<^verbatim>\<open>updates\<close> no
    property of its own: its only enumerable key is the inherited \<^verbatim>\<open>$set\<close>, which the
    final loop skips, and the copy is returned as it is;
  \<^item> for every other \<open>k\<close> the final loop sets \<^verbatim>\<open>nextValue[k] = update(target[k], {$set: v})\<close>,
    which is \<open>v\<close>; the read of \<^verbatim>\<open>target[k]\<close> throws on \<^verbatim>\<open>null\<close>.
\<close>

definition react_update :: "jsobject option \<Rightarrow> string \<Rightarrow> jsval \<Rightarrow> error + jsobject option" where
  "react_update target k v =
     (if k = ''$set'' then Inr (Some [(''$set'', v)])
      else
        (case target of
           None \<Rightarrow>
             if k = ''__proto__'' then Inr None
             else if update_command k then Inl InvariantViolation
             else Inl TypeError
         | Some x \<Rightarrow>
             (case shallowCopy x of
                Inl e \<Rightarrow> Inl e
              | Inr nextValue \<Rightarrow>
                  if k = ''__proto__'' then Inr (Some nextValue)
                  else if k = ''$merge'' then Inr (Some (jsset ''$set'' v nextValue))
                  else if update_command k then Inl InvariantViolation
                  else Inr (Some (jsset k v nextValue)))))"

definition onValueChange ::
  "field_descriptor \<Rightarrow> jsval \<Rightarrow> jsobject state \<Rightarrow> error + jsobject state" where
  "onValueChange field value s =
     (case react_update (recordData s) (name field) (js_or value (JStr '''')) of
        Inl e \<Rightarrow> Inl e
      | Inr rd \<Rightarrow> Inr (s\<lparr>recordData := rd\<rparr>))"

subsection \<open>Rendering\<close>

text \<open>
  \<^verbatim>\<open>Array.prototype.map\<close> and \<^verbatim>\<open>forEach\<close> with a callback that may throw: the first
  exception ends the loop.
\<close>

fun traverse :: "('a \<Rightarrow> error + 'b) \<Rightarrow> 'a list \<Rightarrow> error + 'b list" where
  "traverse f [] = Inr []"
| "traverse f (x # xs) =
     (case f x of
        Inl e \<Rightarrow> Inl e
      | Inr y \<Rightarrow> (case traverse f xs of Inl e \<Rightarrow> Inl e | Inr ys \<Rightarrow> Inr (y # ys)))"

fun foldM :: "('b \<Rightarrow> 'a \<Rightarrow> error + 'b) \<Rightarrow> 'b \<Rightarrow> 'a list \<Rightarrow> error + 'b" where
  "foldM f acc [] = Inr acc"
| "foldM f acc (x # xs) = (case f acc x of Inl e \<Rightarrow> Inl e | Inr acc' \<Rightarrow> foldM f acc' xs)"

text \<open>
  One \<^verbatim>\<open><dl>\<close> of the form: its key and class, the \<^verbatim>\<open><dt>\<close> text, and the props of
  the widget. \<open>onChange\<close> is the field bound into the handler
  \<^verbatim>\<open>this.onValueChange.bind(this, field)\<close>.
\<close>

record rendered_field =
  key :: string
  className :: string
  dt :: string
  value_prop :: jsval
  onChange :: field_descriptor
  type_prop :: string

text \<open>The callback of \<^verbatim>\<open>renderFormFields\<close>; \<open>None\<close> is the \<^verbatim>\<open>null\<close> of a hidden field.\<close>

definition renderField ::
  "registry \<Rightarrow> jsobject state \<Rightarrow> field_descriptor \<Rightarrow> error + rendered_field option" where
  "renderField W s field =
     (if isHiddenField (name field) then Inr None
      else
        let className = ''field'' @ (if take 1 (name field) = ''_'' then '' system-field'' else []);
            Widget = W (type field)
        in (case recordData s of
              None \<Rightarrow> Inl TypeError
            | Some rd \<Rightarrow>
                let value = jsget rd (name field) in
                (if value = JUndefined then
                   (case recordInitialData s of
                      None \<Rightarrow> Inl TypeError
                    | Some init \<Rightarrow>
                        let value = js_or (jsget init (name field)) (JStr []);
                            value = (case deserializeValue Widget of
                                       Some d \<Rightarrow> d value
                                     | None \<Rightarrow> value)
                        in Inr (Some \<lparr>key = name field, className = className, dt = label field,
                                      value_prop = value, onChange = field,
                                      type_prop = type field\<rparr>))
                 else Inr (Some \<lparr>key = name field, className = className, dt = label field,
                                 value_prop = value, onChange = field,
                                 type_prop = type field\<rparr>))))"

definition renderFormFields ::
  "registry \<Rightarrow> jsobject state \<Rightarrow> error + rendered_field option list" where
  "renderFormFields W s =
     (case recordDataModel s of
        None \<Rightarrow> Inl TypeError
      | Some dm \<Rightarrow> traverse (renderField W s) (model_fields dm))"

definition getLabel :: "'r state \<Rightarrow> string option" where
  "getLabel s =
     (case recordInfo s of
        None \<Rightarrow> None
      | Some ri \<Rightarrow> if ri_exists ri then Some (ri_label ri) else Some (ri_id ri))"

text \<open>
  The page \<^verbatim>\<open>render\<close> returns: the label substituted into the translated heading, and
  the form. \<open>Inr None\<close> is \<^verbatim>\<open>null\<close>.
\<close>

record page =
  heading_label :: "string option"
  form :: "rendered_field option list"

definition render :: "registry \<Rightarrow> jsobject state \<Rightarrow> error + page option" where
  "render W s =
     (if recordInfo s = None then Inr None
      else (case renderFormFields W s of
              Inl e \<Rightarrow> Inl e
            | Inr fs \<Rightarrow> Inr (Some \<lparr>heading_label = getLabel s, form = fs\<rparr>)))"

subsection \<open>Submission values\<close>

text \<open>The callback of \<^verbatim>\<open>getValues\<close>, with \<open>rv\<close> as the accumulator.\<close>

definition getValue ::
  "registry \<Rightarrow> jsobject state \<Rightarrow> jsobject \<Rightarrow> field_descriptor \<Rightarrow> error + jsobject" where
  "getValue W s rv field =
     (case recordData s of
        None \<Rightarrow> Inl TypeError
      | Some rd \<Rightarrow>
          let value = jsget rd (name field) in
          (if value \<noteq> JUndefined then
             let Widget = W (type field);
                 value = (case serializeValue Widget of Some f \<Rightarrow> f value | None \<Rightarrow> value)
             in Inr (jsset (name field) value rv)
           else
             (case recordInitialData s of
                None \<Rightarrow> Inl TypeError
              | Some init \<Rightarrow> Inr (jsset (name field) (jsget init (name field)) rv))))"

definition getValues :: "registry \<Rightarrow> jsobject state \<Rightarrow> error + jsobject" where
  "getValues W s =
     (case recordDataModel s of
        None \<Rightarrow> Inl TypeError
      | Some dm \<Rightarrow> foldM (getValue W s) [] (model_fields dm))"

subsection \<open>The view and its loads in flight\<close>

text \<open>
  The component together with the \<^verbatim>\<open>/rawrecord\<close> requests that have been sent and not
  yet settled, oldest first, each with the path it was sent for. \<^verbatim>\<open>syncEditor\<close> sends
  one; its argument is what \<^verbatim>\<open>this.getRecordPath()\<close> returns at the call (the mixin
  \<^verbatim>\<open>RecordState\<close> is not part of the sources at hand). It does not touch the state.
\<close>

record world =
  comp :: "jsobject state"
  inflight :: "string list"

definition syncEditor :: "string \<Rightarrow> world \<Rightarrow> world" where
  "syncEditor path w = w\<lparr>inflight := inflight w @ [path]\<rparr>"

definition componentDidMount :: "string \<Rightarrow> world \<Rightarrow> world" where
  "componentDidMount path w = syncEditor path w"

text \<open>\<^verbatim>\<open>nextProps\<close> is not looked at.\<close>

definition componentWillReceiveProps :: "string \<Rightarrow> world \<Rightarrow> world" where
  "componentWillReceiveProps path w = syncEditor path w"

definition mounted :: "string \<Rightarrow> world" where
  "mounted path = componentDidMount path \<lparr>comp = getInitialState, inflight = []\<rparr>"

text \<open>
  What can happen to a mounted view: new props arrive; the request at position \<open>i\<close> of the
  ones in flight settles; a widget of the rendered form calls its \<^verbatim>\<open>onChange\<close>. An
  event that cannot happen in a world (no such request, no such widget on the page) has no
  successor. An exception in the change handler leaves the state as it was.
\<close>

datatype event =
    ReceiveProps string
  | Settle nat "response settled"
  | Change field_descriptor jsval

definition handler_bound :: "registry \<Rightarrow> jsobject state \<Rightarrow> field_descriptor \<Rightarrow> bool" where
  "handler_bound W s field =
     (case render W s of
        Inr (Some pg) \<Rightarrow>
          list_ex (\<lambda>el. case el of None \<Rightarrow> False | Some r \<Rightarrow> onChange r = field) (form pg)
      | _ \<Rightarrow> False)"

fun step :: "registry \<Rightarrow> event \<Rightarrow> world \<Rightarrow> world option" where
  "step W (ReceiveProps path) w = Some (componentWillReceiveProps path w)"
| "step W (Settle i r) w =
     (if i < length (inflight w)
      then Some \<lparr>comp = promise_then syncEditor_then r (comp w),
                 inflight = take i (inflight w) @ drop (Suc i) (inflight w)\<rparr>
      else None)"
| "step W (Change field value) w =
     (if handler_bound W (comp w) field
      then (case onValueChange field value (comp w) of
              Inl e \<Rightarrow> Some w
            | Inr s' \<Rightarrow> Some (w\<lparr>comp := s'\<rparr>))
      else None)"

fun run :: "registry \<Rightarrow> event list \<Rightarrow> world \<Rightarrow> world option" where
  "run W [] w = Some w"
| "run W (e # es) w = (case step W e w of None \<Rightarrow> None | Some w' \<Rightarrow> run W es w')"

fun is_fulfilment :: "event \<Rightarrow> bool" where
  "is_fulfilment (Settle i (Fulfilled r)) = True"
| "is_fulfilment _ = False"

subsection \<open>Editing, with the identity of the edited object\<close>







section \<open>BreadCrumbs\<close>

text \<open>
  A segment of the \<^verbatim>\<open>/pathinfo\<close> response; its selectors \<^verbatim>\<open>path\<close>, \<^verbatim>\<open>id\<close>,
  \<^verbatim>\<open>label\<close> and \<^verbatim>\<open>exists\<close> carry the prefix \<^verbatim>\<open>seg_\<close>. \<^verbatim>\<open>recordPathInfo\<close> holds
  the path the segments were loaded for.
\<close>

record segment =
  seg_path :: string
  seg_id :: string
  seg_label :: string
  seg_exists :: bool
  can_have_children :: bool
  url_path :: string

record path_info =
  info_path :: string
  segments :: "segment list"

record crumbs_state =
  recordPathInfo :: "path_info option"

text \<open>
  \<^verbatim>\<open>updateCrumbs\<close>, with what \<^verbatim>\<open>this.getRecordPath()\<close> returns as its argument: without a
  path it clears the state and sends nothing; with a path it sends a \<^verbatim>\<open>/pathinfo\<close>
  request for it (the second component of the result) and leaves the state alone. Its
  \<^verbatim>\<open>then\<close> callback stores the segments of the response as they come.
\<close>

record pathinfo_response =
  resp_segments :: "segment list"

definition updateCrumbs :: "string option \<Rightarrow> crumbs_state \<Rightarrow> crumbs_state \<times> string option" where
  "updateCrumbs path st =
     (case path of
        None \<Rightarrow> (st\<lparr>recordPathInfo := None\<rparr>, None)
      | Some p \<Rightarrow> (st, Some p))"

definition updateCrumbs_then :: "string \<Rightarrow> pathinfo_response \<Rightarrow> crumbs_state \<Rightarrow> crumbs_state" where
  "updateCrumbs_then path resp st =
     st\<lparr>recordPathInfo := Some \<lparr>info_path = path, segments = resp_segments resp\<rparr>\<rparr>"

text \<open>
  What the component takes from \<^verbatim>\<open>RecordComponent\<close> and \<^verbatim>\<open>i18n\<close>, neither of which is
  part of the sources at hand.
\<close>

record env =
  isRecordPreviewActive :: bool
  getUrlRecordPathWithAlt :: "string \<Rightarrow> string"
  trans :: "string \<Rightarrow> string"

text \<open>
  A \<^verbatim>\<open><Link>\<close> with its target route, its \<^verbatim>\<open>path\<close> parameter and its text; and the
  children of the \<^verbatim>\<open><ul>\<close>: the slot for \<^verbatim>\<open>this.props.children\<close>, an \<^verbatim>\<open><li>\<close> with
  its key and class around one link, the space, and the closing \<^verbatim>\<open><li>\<close> with the texts of
  its two links.
\<close>

record link =
  link_to :: string
  link_path :: "string option"
  link_text :: string

datatype 'c node =
    Children 'c
  | Li "string option" "string option" link
  | Space
  | Meta string string

text \<open>The callback of \<^verbatim>\<open>segments.map\<close>, without its assignment to \<^verbatim>\<open>lastItem\<close>.\<close>

definition crumb :: "env \<Rightarrow> string \<Rightarrow> segment \<Rightarrow> 'c node" where
  "crumb E target item =
     (let urlPath = getUrlRecordPathWithAlt E (seg_path item);
          label = (if \<not> seg_exists item then seg_id item else seg_label item);
          className = ''record-crumb'' @
                      (if \<not> seg_exists item then '' missing-record-crumb'' else [])
      in Li (Some (seg_path item)) (Some className)
            \<lparr>link_to = target, link_path = Some urlPath, link_text = label\<rparr>)"

text \<open>The \<^verbatim>\<open>map\<close> itself, threading \<^verbatim>\<open>lastItem\<close> through the calls.\<close>

fun map_crumbs ::
  "env \<Rightarrow> string \<Rightarrow> segment list \<Rightarrow> segment option \<Rightarrow> 'c node list \<times> segment option" where
  "map_crumbs E target [] lastItem = ([], lastItem)"
| "map_crumbs E target (item # items) lastItem =
     (let (rest, lastItem') = map_crumbs E target items (Some item)
      in (crumb E target item # rest, lastItem'))"

text \<open>The \<^verbatim>\<open>if\<close> of \<^verbatim>\<open>render\<close>: the value of \<^verbatim>\<open>crumbs\<close> and of \<^verbatim>\<open>lastItem\<close> after it.\<close>

definition build_crumbs :: "env \<Rightarrow> crumbs_state \<Rightarrow> 'c node list \<times> segment option" where
  "build_crumbs E st =
     (let target = (if isRecordPreviewActive E then ''preview'' else ''edit'')
      in (case recordPathInfo st of
            Some info \<Rightarrow> map_crumbs E target (segments info) None
          | None \<Rightarrow>
              ([Li None None \<lparr>link_to = ''edit'', link_path = Some ''root'',
                              link_text = trans E ''BACK_TO_OVERVIEW''\<rparr>], None)))"

definition BreadCrumbs_render :: "env \<Rightarrow> 'c \<Rightarrow> crumbs_state \<Rightarrow> 'c node list" where
  "BreadCrumbs_render E children st =
     (let (crumbs, lastItem) = build_crumbs E st
      in [Children children] @ crumbs @
         (case lastItem of
            Some li \<Rightarrow>
              if can_have_children li
              then [Li None (Some ''new-record-crumb'')
                       \<lparr>link_to = ''add-child'',
                        link_path = Some (getUrlRecordPathWithAlt E (seg_path li)),
                        link_text = ''+''\<rparr>]
              else []
          | None \<Rightarrow> []) @
         [Space, Meta (trans E ''PUBLISH'') (trans E ''RETURN_TO_WEBSITE'')])"

fun is_add_child :: "'c node \<Rightarrow> bool" where
  "is_add_child (Li k c l) = (link_to l = ''add-child'')"
| "is_add_child _ = False"

section \<open>Sample data\<close>

text \<open>
  A registry whose widgets have no conversion hooks, two records with the same data model,
  and an environment for the breadcrumbs; for the concrete runs below.
\<close>

definition plain_registry :: registry where
  "plain_registry = (\<lambda>t. \<lparr>serializeValue = None, deserializeValue = None\<rparr>)"

definition title_field :: field_descriptor where
  "title_field = \<lparr>name = ''title'', label = ''Title'', type = ''string''\<rparr>"

definition count_field :: field_descriptor where
  "count_field = \<lparr>name = ''count'', label = ''Count'', type = ''integer''\<rparr>"

definition path_field :: field_descriptor where
  "path_field = \<lparr>name = ''_path'', label = ''Path'', type = ''string''\<rparr>"





definition sample_model :: datamodel where
  "sample_model = \<lparr>model_fields = [path_field, title_field, count_field]\<rparr>"

definition resp_a :: response where
  "resp_a = \<lparr>data = [(''_path'', JStr ''/a''), (''title'', JStr ''A''), (''count'', JNum 0)],
             datamodel = sample_model,
             record_info = \<lparr>ri_exists = True, ri_label = ''A'', ri_id = ''a''\<rparr>\<rparr>"

definition resp_b :: response where
  "resp_b = \<lparr>data = [(''_path'', JStr ''/b''), (''title'', JStr ''B''), (''count'', JNum 2)],
             datamodel = sample_model,
             record_info = \<lparr>ri_exists = True, ri_label = ''B'', ri_id = ''b''\<rparr>\<rparr>"

definition sample_env :: env where
  "sample_env = \<lparr>isRecordPreviewActive = False, getUrlRecordPathWithAlt = (\<lambda>p. p),
                 trans = (\<lambda>k. k)\<rparr>"

definition state_a :: "jsobject state" where
  "state_a =
     \<lparr>recordInitialData = Some (data resp_a), recordData = Some [],
      recordDataModel = Some (datamodel resp_a), recordInfo = Some (record_info resp_a)\<rparr>"

definition state_b :: "jsobject state" where
  "state_b =
     \<lparr>recordInitialData = Some (data resp_b), recordData = Some [],
      recordDataModel = Some (datamodel resp_b), recordInfo = Some (record_info resp_b)\<rparr>"

definition edited_a :: "jsobject state" where
  "edited_a =
     \<lparr>recordInitialData = Some (data resp_a), recordData = Some [(''title'', JStr ''B'')],
      recordDataModel = Some (datamodel resp_a), recordInfo = Some (record_info resp_a)\<rparr>"


definition title_only :: "jsobject \<Rightarrow> jsobject state" where
  "title_only edits =
     \<lparr>recordInitialData = Some [(''title'', JStr ''A'')], recordData = Some edits,
      recordDataModel = Some \<lparr>model_fields = [title_field]\<rparr>,
      recordInfo = Some (record_info resp_a)\<rparr>"

definition root_seg :: segment where
  "root_seg = \<lparr>seg_path = ''/'', seg_id = [], seg_label = ''Welcome'', seg_exists = True,
               can_have_children = True, url_path = ''/''\<rparr>"

definition blog_seg :: segment where
  "blog_seg = \<lparr>seg_path = ''/blog'', seg_id = ''blog'', seg_label = ''Blog'', seg_exists = True,
               can_have_children = True, url_path = ''/blog/''\<rparr>"

definition logo_seg :: segment where
  "logo_seg = \<lparr>seg_path = ''/logo.png'', seg_id = ''logo.png'', seg_label = ''logo.png'',
               seg_exists = True, can_have_children = False, url_path = ''/logo.png''\<rparr>"

section \<open>Invariants of the editing view\<close>

text \<open>
  The four components of the state are null together or set together, and no pending edit
  is stored under the name of a hidden field. Both hold in every world a mounted view can
  reach, which is shown below.
\<close>

definition consistent :: "'r state \<Rightarrow> bool" where
  "consistent s =
     (if recordInfo s = None
      then recordInitialData s = None \<and> recordData s = None \<and> recordDataModel s = None
      else recordInitialData s \<noteq> None \<and> recordData s \<noteq> None \<and> recordDataModel s \<noteq> None)"

definition no_hidden_edits :: "jsobject state \<Rightarrow> bool" where
  "no_hidden_edits s =
     (case recordData s of None \<Rightarrow> True | Some rd \<Rightarrow> \<forall>k \<in> fst ` set rd. \<not> isHiddenField k)"

section \<open>Properties\<close>

subsection \<open>Objects\<close>


lemma map_of_jsset_other:
  "k' \<noteq> ''__proto__'' \<Longrightarrow> map_of (jsset k v obj) k' = (if k' = k then Some v else map_of obj k')"
  by (auto simp: jsset_def update_conv')


lemma jsset_cases: "jsset k v obj = obj \<or> jsset k v obj = AList.update k v obj"
  by (simp add: jsset_def)


lemma keys_jsset: "fst ` set (jsset k v obj) \<subseteq> insert k (fst ` set obj)"
proof -
  from jsset_cases [of k v obj] show ?thesis
  proof
    assume "jsset k v obj = obj"
    then show ?thesis by auto
  next
    assume "jsset k v obj = AList.update k v obj"
    then show ?thesis by (simp add: dom_update)
  qed
qed


lemma isHiddenField_iff:
  "isHiddenField k \<longleftrightarrow>
   k \<in> set [''_path'', ''_gid'', ''_model'', ''_attachment_for'', ''_attachment_type'']"
  by (simp add: isHiddenField_def)

lemma hidden_not_inherited:
  assumes "isHiddenField k"
  shows "k \<notin> set object_prototype_keys"
proof -
  from assms consider "k = ''_path''" | "k = ''_gid''" | "k = ''_model''"
    | "k = ''_attachment_for''" | "k = ''_attachment_type''"
    by (auto simp: isHiddenField_iff)
  then show ?thesis
    by cases (simp_all add: object_prototype_keys_def)
qed

lemma jsget_absent:
  assumes "k \<notin> fst ` set obj" and "k \<notin> set object_prototype_keys"
  shows "jsget obj k = JUndefined"
proof -
  from assms(1) have "map_of obj k = None" by (simp add: map_of_eq_None_iff)
  with assms(2) show ?thesis by (simp add: jsget_def)
qed

lemma jsget_own:
  "k \<notin> set object_prototype_keys \<Longrightarrow>
   jsget obj k = (case map_of obj k of Some v \<Rightarrow> v | None \<Rightarrow> JUndefined)"
  by (simp add: jsget_def split: option.splits)


subsection \<open>The copy and the update\<close>


lemma shallowCopy_subset: "shallowCopy x = Inr c \<Longrightarrow> set c \<subseteq> set x"
  by (auto simp: shallowCopy_def split: option.splits if_splits)

lemma react_update_loaded:
  assumes "react_update (Some rd) k v = Inr r"
  shows "\<exists>m. r = Some m \<and> fst ` set m \<subseteq> insert k (insert ''$set'' (fst ` set rd))"
proof (cases "k = ''$set''")
  case True
  with assms show ?thesis by (auto simp: react_update_def)
next
  case False
  with assms obtain c where c: "shallowCopy rd = Inr c"
    by (auto simp: react_update_def split: sum.splits)
  from shallowCopy_subset [OF c] have sub: "fst ` set c \<subseteq> fst ` set rd" by auto
  from assms False c consider "r = Some c" | "r = Some (jsset ''$set'' v c)" | "r = Some (jsset k v c)"
    by (auto simp: react_update_def split: if_splits)
  then show ?thesis
  proof cases
    case 1
    with sub show ?thesis by auto
  next
    case 2
    from sub keys_jsset [of "''$set''" v c]
    have "fst ` set (jsset ''$set'' v c) \<subseteq> insert k (insert ''$set'' (fst ` set rd))" by blast
    with 2 show ?thesis by simp
  next
    case 3
    from sub keys_jsset [of k v c]
    have "fst ` set (jsset k v c) \<subseteq> insert k (insert ''$set'' (fst ` set rd))" by blast
    with 3 show ?thesis by simp
  qed
qed


subsection \<open>Loops over the fields\<close>

lemma traverse_total:
  assumes "\<And>x. x \<in> set xs \<Longrightarrow> \<exists>y. f x = Inr y"
  shows "\<exists>ys. traverse f xs = Inr ys"
  using assms
proof (induction xs)
  case Nil
  show ?case by simp
next
  case (Cons x xs)
  from Cons.prems obtain y where y: "f x = Inr y" by auto
  from Cons obtain ys where "traverse f xs = Inr ys" by auto
  with y show ?case by simp
qed

lemma traverse_elem:
  "traverse f xs = Inr ys \<Longrightarrow> y \<in> set ys \<Longrightarrow> \<exists>x \<in> set xs. f x = Inr y"
proof (induction xs arbitrary: ys)
  case Nil
  then show ?case by simp
next
  case (Cons x xs)
  then show ?case by (auto split: sum.splits)
qed

lemma traverse_set: "traverse f xs = Inr ys \<Longrightarrow> f ` set xs = Inr ` set ys"
proof (induction xs arbitrary: ys)
  case Nil
  then show ?case by simp
next
  case (Cons x xs)
  then show ?case by (auto split: sum.splits)
qed

subsection \<open>Rendering a loaded state\<close>

lemma renderField_total:
  assumes "recordData s = Some rd" and "recordInitialData s = Some init"
  shows "\<exists>r. renderField W s field = Inr r"
  using assms by (simp add: renderField_def Let_def)

lemma renderField_shown:
  assumes "recordData s = Some rd" and "recordInitialData s = Some init"
    and "\<not> isHiddenField (name f)"
  shows "\<exists>r. renderField W s f = Inr (Some r)"
  using assms by (simp add: renderField_def Let_def)

lemma renderField_Some:
  assumes "renderField W s f = Inr (Some r)"
  shows "onChange r = f \<and> key r = name f \<and> \<not> isHiddenField (name f)"
  using assms
  by (auto simp: renderField_def Let_def split: if_splits option.splits)

lemma renderField_value:
  assumes "recordData s = Some rd" and "recordInitialData s = Some init"
    and "renderField W s f = Inr (Some r)"
  shows "value_prop r =
           (if jsget rd (name f) \<noteq> JUndefined then jsget rd (name f)
            else (case deserializeValue (W (type f)) of
                    Some d \<Rightarrow> d (js_or (jsget init (name f)) (JStr []))
                  | None \<Rightarrow> js_or (jsget init (name f)) (JStr [])))"
  using assms by (auto simp: renderField_def Let_def split: if_splits option.splits)

lemma render_loaded:
  assumes "consistent s" and "recordInfo s \<noteq> None"
  shows "\<exists>pg. render W s = Inr (Some pg)"
proof -
  from assms obtain rd init dm where
    s: "recordData s = Some rd" "recordInitialData s = Some init" "recordDataModel s = Some dm"
    by (auto simp: consistent_def)
  from traverse_total [of "model_fields dm" "renderField W s"] renderField_total [OF s(1,2)]
  obtain fs where "traverse (renderField W s) (model_fields dm) = Inr fs" by blast
  with s assms(2) show ?thesis by (simp add: render_def renderFormFields_def)
qed

lemma render_null_iff:
  assumes "consistent s"
  shows "render W s = Inr None \<longleftrightarrow> recordInfo s = None"
  using assms render_loaded [of s W] by (auto simp: render_def)

lemma handler_bound_not_hidden:
  assumes "handler_bound W s field"
  shows "\<not> isHiddenField (name field)"
proof -
  from assms obtain pg where pg: "render W s = Inr (Some pg)"
    and ex: "list_ex (\<lambda>el. case el of None \<Rightarrow> False | Some r \<Rightarrow> onChange r = field) (form pg)"
    by (auto simp: handler_bound_def split: sum.splits option.splits)
  from ex obtain r where r: "Some r \<in> set (form pg)" "onChange r = field"
    by (auto simp: list_ex_iff split: option.splits)
  from pg obtain dm where dm: "recordDataModel s = Some dm"
    and tr: "traverse (renderField W s) (model_fields dm) = Inr (form pg)"
    by (auto simp: render_def renderFormFields_def split: if_splits sum.splits option.splits)
  from traverse_elem [OF tr r(1)] obtain f where "renderField W s f = Inr (Some r)" by blast
  from renderField_Some [OF this] r(2) show ?thesis by simp
qed

subsection \<open>The worlds a mounted view reaches\<close>

lemma mounted_simps:
  "comp (mounted p) = getInitialState" "inflight (mounted p) = [p]"
  by (simp_all add: mounted_def componentDidMount_def syncEditor_def)

lemma consistent_initial: "consistent (getInitialState :: 'r state)"
  by (simp add: consistent_def getInitialState_def)

lemma consistent_then: "consistent (syncEditor_then resp s)"
  by (simp add: consistent_def syncEditor_then_def)

lemma handler_bound_loaded:
  assumes "handler_bound W s field"
  shows "recordInfo s \<noteq> None"
proof
  assume "recordInfo s = None"
  then have "render W s = Inr None" by (simp add: render_def)
  with assms show False by (simp add: handler_bound_def)
qed

lemma onValueChange_loaded:
  assumes "onValueChange field value s = Inr s'" and "recordData s = Some rd"
  shows "\<exists>m. s' = s\<lparr>recordData := Some m\<rparr>
           \<and> fst ` set m \<subseteq> insert (name field) (insert ''$set'' (fst ` set rd))"
proof -
  from assms obtain r where r: "react_update (Some rd) (name field) (js_or value (JStr [])) = Inr r"
    and s': "s' = s\<lparr>recordData := r\<rparr>"
    by (auto simp: onValueChange_def split: sum.splits)
  from react_update_loaded [OF r] s' show ?thesis by auto
qed

lemma consistent_onValueChange:
  assumes "consistent s" and "recordInfo s \<noteq> None" and "onValueChange field value s = Inr s'"
  shows "consistent s'"
proof -
  from assms(1,2) obtain rd where rd: "recordData s = Some rd" by (auto simp: consistent_def)
  from onValueChange_loaded [OF assms(3) rd] assms(1,2) show ?thesis
    by (auto simp: consistent_def)
qed

lemma recordInfo_onValueChange:
  "onValueChange field value s = Inr s' \<Longrightarrow> recordInfo s' = recordInfo s"
  by (auto simp: onValueChange_def split: sum.splits)

lemma react_update_null:
  "react_update None k v = Inr r \<Longrightarrow> r = None \<or> r = Some [(''$set'', v)]"
  by (auto simp: react_update_def split: if_splits)

lemma no_hidden_onValueChange:
  assumes "no_hidden_edits s" and "\<not> isHiddenField (name field)"
    and "onValueChange field value s = Inr s'"
  shows "no_hidden_edits s'"
proof (cases "recordData s")
  case None
  with assms(3) obtain r where
    r: "react_update None (name field) (js_or value (JStr [])) = Inr r"
    and s': "s' = s\<lparr>recordData := r\<rparr>"
    by (auto simp: onValueChange_def split: sum.splits)
  from react_update_null [OF r] s' show ?thesis
    by (auto simp: no_hidden_edits_def isHiddenField_def)
next
  case (Some rd)
  from onValueChange_loaded [OF assms(3) Some] obtain m where m: "s' = s\<lparr>recordData := Some m\<rparr>"
    "fst ` set m \<subseteq> insert (name field) (insert ''$set'' (fst ` set rd))" by blast
  from assms(1) Some have old: "\<forall>k \<in> fst ` set rd. \<not> isHiddenField k"
    by (simp add: no_hidden_edits_def)
  have cmd: "\<not> isHiddenField ''$set''" by (simp add: isHiddenField_def)
  have "\<not> isHiddenField k" if "k \<in> fst ` set m" for k
  proof -
    from that m(2) have "k = name field \<or> k = ''$set'' \<or> k \<in> fst ` set rd" by auto
    then show ?thesis
    proof (elim disjE)
      assume "k = name field"
      with assms(2) show ?thesis by simp
    next
      assume "k = ''$set''"
      with cmd show ?thesis by simp
    next
      assume "k \<in> fst ` set rd"
      with old show ?thesis by (rule bspec)
    qed
  qed
  with m(1) show ?thesis by (simp add: no_hidden_edits_def)
qed

lemma step_consistent:
  assumes "step W e w = Some w'" and "consistent (comp w)"
  shows "consistent (comp w')"
proof (cases e)
  case (ReceiveProps p)
  with assms show ?thesis by (auto simp: componentWillReceiveProps_def syncEditor_def)
next
  case (Settle i r)
  with assms show ?thesis by (cases r) (auto simp: consistent_then split: if_splits)
next
  case (Change f v)
  show ?thesis
  proof (cases "onValueChange f v (comp w)")
    case (Inl err)
    with Change assms show ?thesis by (auto split: if_splits)
  next
    case (Inr s')
    from Change assms(1) have b: "handler_bound W (comp w) f" by (auto split: if_splits)
    from consistent_onValueChange [OF assms(2) handler_bound_loaded [OF b] Inr]
    have "consistent s'" .
    with Change assms(1) b Inr show ?thesis by auto
  qed
qed

lemma step_recordInfo:
  assumes "step W e w = Some w'"
  shows "recordInfo (comp w') = None \<longleftrightarrow> recordInfo (comp w) = None \<and> \<not> is_fulfilment e"
proof (cases e)
  case (ReceiveProps p)
  with assms show ?thesis by (auto simp: componentWillReceiveProps_def syncEditor_def)
next
  case (Settle i r)
  with assms show ?thesis by (cases r) (auto simp: syncEditor_then_def split: if_splits)
next
  case (Change f v)
  with assms show ?thesis
    by (auto split: if_splits sum.splits dest: recordInfo_onValueChange)
qed

lemma step_no_hidden:
  assumes "step W e w = Some w'" and "no_hidden_edits (comp w)"
  shows "no_hidden_edits (comp w')"
proof (cases e)
  case (ReceiveProps p)
  with assms show ?thesis by (auto simp: componentWillReceiveProps_def syncEditor_def)
next
  case (Settle i r)
  with assms show ?thesis
    by (cases r) (auto simp: no_hidden_edits_def syncEditor_then_def split: if_splits)
next
  case (Change f v)
  show ?thesis
  proof (cases "onValueChange f v (comp w)")
    case (Inl err)
    with Change assms show ?thesis by (auto split: if_splits)
  next
    case (Inr s')
    from Change assms(1) have b: "handler_bound W (comp w) f" by (auto split: if_splits)
    from no_hidden_onValueChange [OF assms(2) handler_bound_not_hidden [OF b] Inr]
    have "no_hidden_edits s'" .
    with Change assms(1) b Inr show ?thesis by auto
  qed
qed

lemma run_consistent:
  "run W evs w = Some w' \<Longrightarrow> consistent (comp w) \<Longrightarrow> consistent (comp w')"
proof (induction evs arbitrary: w)
  case Nil
  then show ?case by simp
next
  case (Cons e evs)
  then show ?case by (auto split: option.splits dest: step_consistent)
qed

lemma run_recordInfo:
  "run W evs w = Some w' \<Longrightarrow>
   recordInfo (comp w') = None \<longleftrightarrow> recordInfo (comp w) = None \<and> \<not> list_ex is_fulfilment evs"
proof (induction evs arbitrary: w)
  case Nil
  then show ?case by simp
next
  case (Cons e evs)
  then show ?case by (auto split: option.splits dest: step_recordInfo)
qed

lemma run_no_hidden:
  "run W evs w = Some w' \<Longrightarrow> no_hidden_edits (comp w) \<Longrightarrow> no_hidden_edits (comp w')"
proof (induction evs arbitrary: w)
  case Nil
  then show ?case by simp
next
  case (Cons e evs)
  then show ?case by (auto split: option.splits dest: step_no_hidden)
qed

text \<open>Unfolding sets for the concrete runs.\<close>

lemmas world_defs = mounted_def componentDidMount_def componentWillReceiveProps_def
  syncEditor_def syncEditor_then_def getInitialState_def

lemmas sample_defs = plain_registry_def title_field_def count_field_def path_field_def
  sample_model_def resp_a_def resp_b_def state_a_def state_b_def edited_a_def

lemmas render_defs = render_def renderFormFields_def renderField_def getLabel_def
  isHiddenField_def jsget_def object_prototype_keys_def js_or_def

lemmas update_defs = onValueChange_def react_update_def shallowCopy_def update_command_def
  jsset_def

subsection \<open>Loading\<close>

text \<open>
  C1, as stated, fails. The view is mounted on \<^verbatim>\<open>/a\<close>, the path changes to \<^verbatim>\<open>/b\<close>
  while the first load is in flight, the response for \<^verbatim>\<open>/b\<close> arrives and is applied, and
  then the response for \<^verbatim>\<open>/a\<close> arrives: it is applied as well, and the state that had
  advanced to \<^verbatim>\<open>/b\<close> is the one of \<^verbatim>\<open>/a\<close> again, although \<^verbatim>\<open>/b\<close> was issued last.
\<close>

theorem stale_response_overwrites:
  "run plain_registry [ReceiveProps ''/b'', Settle 1 (Fulfilled resp_b)] (mounted ''/a'')
     = Some \<lparr>comp = state_b, inflight = [''/a'']\<rparr>
   \<and> run plain_registry [ReceiveProps ''/b'', Settle 1 (Fulfilled resp_b), Settle 0 (Fulfilled resp_a)]
         (mounted ''/a'')
     = Some \<lparr>comp = state_a, inflight = []\<rparr>
   \<and> recordInitialData state_a \<noteq> recordInitialData state_b
   \<and> recordInfo state_a \<noteq> recordInfo state_b"
  by (simp add: world_defs state_a_def state_b_def resp_a_def resp_b_def)

text \<open>
  C1, amended. Every response is applied when it arrives, whatever path it was requested
  for. With a load for \<open>a\<close> and then a load for \<open>b\<close> in flight, after both responses have been
  handled the initial data, the data model and the record info are those of the response
  handled last: those of \<open>b\<close> when the responses arrive in the order of the requests, those of
  \<open>a\<close> when the response for \<open>a\<close> arrives after the one for \<open>b\<close>.
\<close>

theorem last_response_wins:
  "run W [Settle (length (inflight w)) (Fulfilled ra), Settle (length (inflight w)) (Fulfilled rb)]
       (syncEditor b (syncEditor a w))
     = Some \<lparr>comp = \<lparr>recordInitialData = Some (data rb), recordData = Some [],
                     recordDataModel = Some (datamodel rb), recordInfo = Some (record_info rb)\<rparr>,
             inflight = inflight w\<rparr>
   \<and> run W [Settle (Suc (length (inflight w))) (Fulfilled rb), Settle (length (inflight w)) (Fulfilled ra)]
       (syncEditor b (syncEditor a w))
     = Some \<lparr>comp = \<lparr>recordInitialData = Some (data ra), recordData = Some [],
                     recordDataModel = Some (datamodel ra), recordInfo = Some (record_info ra)\<rparr>,
             inflight = inflight w\<rparr>"
  by (simp add: syncEditor_def syncEditor_then_def)

text \<open>
  C2, as stated, fails. Once the record of \<^verbatim>\<open>/a\<close> has been loaded, a change of the path to
  \<^verbatim>\<open>/b\<close> sends the new request and leaves the state alone: while that request is in flight
  \<^verbatim>\<open>render\<close> returns the page of \<^verbatim>\<open>/a\<close>, not \<^verbatim>\<open>null\<close>.
\<close>

theorem path_change_keeps_previous_page:
  "run plain_registry [Settle 0 (Fulfilled resp_a), ReceiveProps ''/b''] (mounted ''/a'')
     = Some \<lparr>comp = state_a, inflight = [''/b'']\<rparr>
   \<and> render plain_registry state_a
     = Inr (Some \<lparr>heading_label = Some ''A'',
                  form = [None,
                          Some \<lparr>key = ''title'', className = ''field'', dt = ''Title'',
                                value_prop = JStr ''A'', onChange = title_field,
                                type_prop = ''string''\<rparr>,
                          Some \<lparr>key = ''count'', className = ''field'', dt = ''Count'',
                                value_prop = JStr [], onChange = count_field,
                                type_prop = ''integer''\<rparr>]\<rparr>)"
  by (simp add: world_defs sample_defs render_defs)

text \<open>
  C2, amended. In every world a mounted view reaches, \<^verbatim>\<open>render\<close> returns \<^verbatim>\<open>null\<close> exactly
  when no response has been applied since the mount; once one has been applied it returns a
  page. New props, with a changed path or not, send a request and leave the state as it is,
  so the page of the record loaded last stays until the next response is applied.
\<close>

theorem render_null_until_first_response:
  assumes "run W evs (mounted p) = Some w"
  shows "(render W (comp w) = Inr None \<longleftrightarrow> \<not> list_ex is_fulfilment evs)
       \<and> (list_ex is_fulfilment evs \<longrightarrow> (\<exists>pg. render W (comp w) = Inr (Some pg)))
       \<and> comp (componentWillReceiveProps p' w) = comp w"
proof -
  have c: "consistent (comp w)"
    using run_consistent [OF assms] by (simp add: mounted_simps consistent_initial)
  have i: "recordInfo (comp w) = None \<longleftrightarrow> \<not> list_ex is_fulfilment evs"
    using run_recordInfo [OF assms] by (simp add: mounted_simps getInitialState_def)
  have 1: "render W (comp w) = Inr None \<longleftrightarrow> \<not> list_ex is_fulfilment evs"
    using render_null_iff [OF c] i by simp
  have 2: "list_ex is_fulfilment evs \<longrightarrow> (\<exists>pg. render W (comp w) = Inr (Some pg))"
    using render_loaded [OF c] i by blast
  have 3: "comp (componentWillReceiveProps p' w) = comp w"
    by (simp add: componentWillReceiveProps_def syncEditor_def)
  from 1 2 3 show ?thesis by blast
qed

theorem render_null_until_first_response_witness:
  "run plain_registry [ReceiveProps ''/b'', Settle 1 (Fulfilled resp_b)] (mounted ''/a'')
     = Some \<lparr>comp = state_b, inflight = [''/a'']\<rparr>
   \<and> list_ex is_fulfilment [ReceiveProps ''/b'', Settle 1 (Fulfilled resp_b)]
   \<and> render plain_registry state_b \<noteq> Inr None
   \<and> (\<exists>pg. render plain_registry state_b = Inr (Some pg))
   \<and> comp (componentWillReceiveProps ''/c'' \<lparr>comp = state_b, inflight = [''/a'']\<rparr>) = state_b"
proof -
  have h: "run plain_registry [ReceiveProps ''/b'', Settle 1 (Fulfilled resp_b)] (mounted ''/a'')
             = Some \<lparr>comp = state_b, inflight = [''/a'']\<rparr>"
    by (simp add: world_defs state_b_def)
  from h render_null_until_first_response [OF h, of "''/c''"] show ?thesis by simp
qed

text \<open>
  C6. When the promise of a load is rejected, nothing runs: in every world a mounted view
  reaches, the rejection of any request in flight leaves the state of the component as it
  was, and as long as no load has been fulfilled, whatever else has happened, \<^verbatim>\<open>render\<close>
  returns \<^verbatim>\<open>null\<close>. The state has no component in which an error could be recorded.
\<close>

theorem rejected_load_changes_nothing:
  assumes "run W evs (mounted p) = Some w"
  shows "(\<forall>i e. i < length (inflight w) \<longrightarrow>
            (\<exists>w'. step W (Settle i (Rejected e)) w = Some w' \<and> comp w' = comp w))
       \<and> (\<not> list_ex is_fulfilment evs \<longrightarrow> render W (comp w) = Inr None)"
proof -
  have "recordInfo (comp w) = None \<longleftrightarrow> \<not> list_ex is_fulfilment evs"
    using run_recordInfo [OF assms] by (simp add: mounted_simps getInitialState_def)
  then have "\<not> list_ex is_fulfilment evs \<longrightarrow> render W (comp w) = Inr None"
    by (simp add: render_def)
  then show ?thesis by simp
qed

theorem rejected_load_changes_nothing_witness:
  "run plain_registry [ReceiveProps ''/b'', Settle 0 (Rejected ''timeout'')] (mounted ''/a'')
     = Some \<lparr>comp = getInitialState, inflight = [''/b'']\<rparr>
   \<and> 0 < length (inflight \<lparr>comp = getInitialState, inflight = [''/b'']\<rparr>)
   \<and> (\<exists>w'. step plain_registry (Settle 0 (Rejected ''gone''))
               \<lparr>comp = getInitialState, inflight = [''/b'']\<rparr> = Some w'
            \<and> comp w' = getInitialState)
   \<and> \<not> list_ex is_fulfilment [ReceiveProps ''/b'', Settle 0 (Rejected ''timeout'')]
   \<and> render plain_registry getInitialState = Inr None"
proof -
  have h: "run plain_registry [ReceiveProps ''/b'', Settle 0 (Rejected ''timeout'')] (mounted ''/a'')
             = Some \<lparr>comp = getInitialState, inflight = [''/b'']\<rparr>"
    by (simp add: world_defs)
  from h rejected_load_changes_nothing [OF h] show ?thesis by simp
qed

text \<open>
  C10. Whenever the response of a load in flight is applied, \<^verbatim>\<open>recordData\<close> becomes the
  empty object, whatever edits it held. New props of any kind, for the same path or another,
  send such a load: from any world, new props for \<open>p\<close> followed by the response to that
  request leave \<^verbatim>\<open>recordData\<close> empty next to the fetched data.
\<close>

theorem response_resets_pending_edits:
  assumes "i < length (inflight w)"
  shows "(\<exists>w'. step W (Settle i (Fulfilled resp)) w = Some w' \<and> recordData (comp w') = Some [])
    \<and> (\<exists>w'. run W [ReceiveProps p, Settle (length (inflight w)) (Fulfilled resp)] w = Some w'
          \<and> recordData (comp w') = Some [] \<and> recordInitialData (comp w') = Some (data resp)
          \<and> inflight w' = inflight w)"
  using assms by (simp add: componentWillReceiveProps_def syncEditor_def syncEditor_then_def)

theorem response_resets_pending_edits_witness:
  "0 < length (inflight \<lparr>comp = edited_a, inflight = [''/a'']\<rparr>)
   \<and> recordData edited_a = Some [(''title'', JStr ''B'')]
   \<and> (\<exists>w'. step plain_registry (Settle 0 (Fulfilled resp_a))
               \<lparr>comp = edited_a, inflight = [''/a'']\<rparr> = Some w'
            \<and> recordData (comp w') = Some [])
   \<and> (\<exists>w'. run plain_registry [ReceiveProps ''/a'', Settle 1 (Fulfilled resp_a)]
               \<lparr>comp = edited_a, inflight = [''/a'']\<rparr> = Some w'
            \<and> recordData (comp w') = Some [] \<and> recordInitialData (comp w') = Some (data resp_a)
            \<and> inflight w' = [''/a''])"
proof -
  have h: "0 < length (inflight \<lparr>comp = edited_a, inflight = [''/a'']\<rparr>)" by simp
  from response_resets_pending_edits [OF h, of plain_registry resp_a "''/a''"]
  show ?thesis by (simp add: edited_a_def)
qed

subsection \<open>The form\<close>

text \<open>
  C4, as stated, fails. A stored value that is falsy does not reach the widget: with no
  pending edit for \<^verbatim>\<open>count\<close>, a widget without \<^verbatim>\<open>deserializeValue\<close> and the stored
  number 0, the displayed value is the empty string, not the stored value.
\<close>

theorem falsy_stored_value_displayed_empty:
  "renderFormFields plain_registry
      \<lparr>recordInitialData = Some [(''count'', JNum 0)], recordData = Some [],
       recordDataModel = Some \<lparr>model_fields = [count_field]\<rparr>,
       recordInfo = Some (record_info resp_a)\<rparr>
     = Inr [Some \<lparr>key = ''count'', className = ''field'', dt = ''Count'', value_prop = JStr [],
                  onChange = count_field, type_prop = ''integer''\<rparr>]
   \<and> jsget [] (name count_field) = JUndefined
   \<and> deserializeValue (plain_registry (type count_field)) = None
   \<and> jsget [(''count'', JNum 0)] (name count_field) = JNum 0
   \<and> JStr [] \<noteq> JNum 0"
  by (simp add: renderFormFields_def renderField_def plain_registry_def count_field_def
      isHiddenField_def jsget_def object_prototype_keys_def js_or_def)

text \<open>
  C4, amended. On a loaded state the form is rendered, every field of the schema that is
  not hidden has a widget in it, and the value of each widget whose field \<open>f\<close> is not named
  like a property of \<^verbatim>\<open>Object.prototype\<close> is: the pending edit stored under
  \<^verbatim>\<open>f.name\<close> when there is one and it is not undefined, with no deserialize step;
  otherwise the stored value \<^verbatim>\<open>initialData[f.name]\<close>, replaced by the empty string when it
  is falsy, passed through \<^verbatim>\<open>deserializeValue\<close> of the resolved widget when the widget
  defines one and taken as it is when not. The instance that follows is the example with
  the title: stored \<^verbatim>\<open>"A"\<close> and pending \<^verbatim>\<open>"B"\<close> display \<^verbatim>\<open>"B"\<close>, stored \<^verbatim>\<open>"A"\<close> and
  nothing pending display \<^verbatim>\<open>"A"\<close>.
\<close>

theorem displayed_value_precedence:
  assumes "recordData s = Some rd" and "recordInitialData s = Some init"
    and "recordDataModel s = Some dm"
  shows "\<exists>els. renderFormFields W s = Inr els
    \<and> (\<forall>f \<in> set (model_fields dm). \<not> isHiddenField (name f) \<longrightarrow>
          (\<exists>r. Some r \<in> set els \<and> onChange r = f))
    \<and> (\<forall>r. Some r \<in> set els \<longrightarrow> name (onChange r) \<notin> set object_prototype_keys \<longrightarrow>
          value_prop r =
            (let stored = js_or (jsget init (name (onChange r))) (JStr []);
                 shown = (case deserializeValue (W (type (onChange r))) of
                            Some d \<Rightarrow> d stored
                          | None \<Rightarrow> stored)
             in case map_of rd (name (onChange r)) of
                  Some v \<Rightarrow> if v \<noteq> JUndefined then v else shown
                | None \<Rightarrow> shown))"
proof -
  from traverse_total [of "model_fields dm" "renderField W s"] renderField_total [OF assms(1,2)]
  obtain els where els: "traverse (renderField W s) (model_fields dm) = Inr els" by blast
  have 1: "\<exists>r. Some r \<in> set els \<and> onChange r = f"
    if "f \<in> set (model_fields dm)" and "\<not> isHiddenField (name f)" for f
  proof -
    from renderField_shown [OF assms(1,2) that(2)] obtain r where
      r: "renderField W s f = Inr (Some r)" by blast
    from that(1) have "renderField W s f \<in> renderField W s ` set (model_fields dm)" by simp
    with traverse_set [OF els] r have "Some r \<in> set els" by auto
    with renderField_Some [OF r] show ?thesis by blast
  qed
  have 2: "value_prop r =
            (let stored = js_or (jsget init (name (onChange r))) (JStr []);
                 shown = (case deserializeValue (W (type (onChange r))) of
                            Some d \<Rightarrow> d stored
                          | None \<Rightarrow> stored)
             in case map_of rd (name (onChange r)) of
                  Some v \<Rightarrow> if v \<noteq> JUndefined then v else shown
                | None \<Rightarrow> shown)"
    if "Some r \<in> set els" and n: "name (onChange r) \<notin> set object_prototype_keys" for r
  proof -
    from traverse_elem [OF els that(1)] obtain f where f: "renderField W s f = Inr (Some r)"
      by blast
    from renderField_Some [OF f] have eq: "f = onChange r" by simp
    from renderField_value [OF assms(1,2) f] show ?thesis
      unfolding eq jsget_own [OF n, of rd] by (simp add: Let_def split: option.splits)
  qed
  from els assms(3) have "renderFormFields W s = Inr els" by (simp add: renderFormFields_def)
  with 1 2 show ?thesis by blast
qed

theorem displayed_value_precedence_witness:
  "recordData (title_only [(''title'', JStr ''B'')]) = Some [(''title'', JStr ''B'')]
   \<and> recordInitialData (title_only [(''title'', JStr ''B'')]) = Some [(''title'', JStr ''A'')]
   \<and> recordDataModel (title_only [(''title'', JStr ''B'')]) = Some \<lparr>model_fields = [title_field]\<rparr>
   \<and> \<not> isHiddenField (name title_field)
   \<and> name title_field \<notin> set object_prototype_keys
   \<and> renderFormFields plain_registry (title_only [(''title'', JStr ''B'')])
     = Inr [Some \<lparr>key = ''title'', className = ''field'', dt = ''Title'', value_prop = JStr ''B'',
                  onChange = title_field, type_prop = ''string''\<rparr>]
   \<and> renderFormFields plain_registry (title_only [])
     = Inr [Some \<lparr>key = ''title'', className = ''field'', dt = ''Title'', value_prop = JStr ''A'',
                  onChange = title_field, type_prop = ''string''\<rparr>]"
proof -
  have 1: "recordData (title_only [(''title'', JStr ''B'')]) = Some [(''title'', JStr ''B'')]"
    and 2: "recordInitialData (title_only [(''title'', JStr ''B'')]) = Some [(''title'', JStr ''A'')]"
    and 3: "recordDataModel (title_only [(''title'', JStr ''B'')]) = Some \<lparr>model_fields = [title_field]\<rparr>"
    by (simp_all add: title_only_def)
  from 1 2 3 displayed_value_precedence [OF 1 2 3, of plain_registry] show ?thesis
    by (simp add: title_only_def sample_defs render_defs)
qed

text \<open>The value \<^verbatim>\<open>getValues\<close> submits under a name that has no pending edit.\<close>

lemma getValue_shape:
  assumes "recordData s = Some rd" and "recordInitialData s = Some init"
  shows "\<exists>v. getValue W s rv f = Inr (jsset (name f) v rv)
            \<and> (jsget rd (name f) = JUndefined \<longrightarrow> v = jsget init (name f))"
  using assms by (auto simp: getValue_def Let_def)

lemma foldM_getValue:
  assumes "recordData s = Some rd" and "recordInitialData s = Some init"
    and "jsget rd k = JUndefined" and "k \<noteq> ''__proto__''"
  shows "\<exists>rv'. foldM (getValue W s) rv fs = Inr rv'
           \<and> map_of rv' k = (if k \<in> name ` set fs then Some (jsget init k) else map_of rv k)"
proof (induction fs arbitrary: rv)
  case Nil
  show ?case by simp
next
  case (Cons f fs)
  from getValue_shape [OF assms(1,2), of W rv f] obtain v where
    v: "getValue W s rv f = Inr (jsset (name f) v rv)"
       "jsget rd (name f) = JUndefined \<longrightarrow> v = jsget init (name f)"
    by blast
  from Cons.IH [of "jsset (name f) v rv"] obtain rv' where
    rv': "foldM (getValue W s) (jsset (name f) v rv) fs = Inr rv'"
         "map_of rv' k = (if k \<in> name ` set fs then Some (jsget init k)
                          else map_of (jsset (name f) v rv) k)"
    by blast
  have "map_of (jsset (name f) v rv) k = (if k = name f then Some v else map_of rv k)"
    by (rule map_of_jsset_other [OF assms(4)])
  with v rv' assms(3) show ?case by auto
qed

text \<open>
  C5. In every world a mounted view reaches, for a field of the loaded schema, at any
  position of it, whose name is one of the hidden identifiers: the page is rendered and no
  element of its form has that name as its key or that field behind its handler; and
  \<^verbatim>\<open>getValues\<close> returns a mapping that holds, under that name, the value stored for it in
  \<^verbatim>\<open>recordInitialData\<close>. The second part rests on the first: a widget is the only caller
  of \<^verbatim>\<open>onValueChange\<close>, so no edit is ever pending under a hidden name.
\<close>

theorem hidden_field_not_rendered_but_submitted:
  assumes "run W evs (mounted p) = Some w"
    and "recordDataModel (comp w) = Some dm"
    and "field \<in> set (model_fields dm)"
    and "isHiddenField (name field)"
  shows "(\<exists>pg. render W (comp w) = Inr (Some pg)
            \<and> (\<forall>r. Some r \<in> set (form pg) \<longrightarrow> key r \<noteq> name field \<and> onChange r \<noteq> field))
       \<and> (\<exists>rv init. getValues W (comp w) = Inr rv \<and> recordInitialData (comp w) = Some init
            \<and> map_of rv (name field) = Some (jsget init (name field)))"
proof -
  let ?s = "comp w"
  have c: "consistent ?s"
    using run_consistent [OF assms(1)] by (simp add: mounted_simps consistent_initial)
  have h: "no_hidden_edits ?s"
    using run_no_hidden [OF assms(1)]
    by (simp add: mounted_simps no_hidden_edits_def getInitialState_def)
  from c assms(2) obtain rd init where
    s: "recordData ?s = Some rd" "recordInitialData ?s = Some init" "recordInfo ?s \<noteq> None"
    by (auto simp: consistent_def split: if_splits)
  from render_loaded [OF c s(3)] obtain pg where pg: "render W ?s = Inr (Some pg)" by blast
  with assms(2) have tr: "traverse (renderField W ?s) (model_fields dm) = Inr (form pg)"
    by (auto simp: render_def renderFormFields_def split: if_splits sum.splits)
  have 1: "key r \<noteq> name field \<and> onChange r \<noteq> field" if "Some r \<in> set (form pg)" for r
  proof -
    from traverse_elem [OF tr that] obtain f where "renderField W ?s f = Inr (Some r)" by blast
    from renderField_Some [OF this] assms(4) show ?thesis by auto
  qed
  from h s(1) assms(4) have "name field \<notin> fst ` set rd"
    by (auto simp: no_hidden_edits_def)
  then have u: "jsget rd (name field) = JUndefined"
    using hidden_not_inherited [OF assms(4)] by (rule jsget_absent)
  from hidden_not_inherited [OF assms(4)] have p: "name field \<noteq> ''__proto__''"
    by (auto simp: object_prototype_keys_def)
  from foldM_getValue [OF s(1,2) u p, of W "[]" "model_fields dm"] assms(2,3)
  have 2: "\<exists>rv. getValues W ?s = Inr rv \<and> map_of rv (name field) = Some (jsget init (name field))"
    by (auto simp: getValues_def)
  from pg 1 2 s(2) show ?thesis by blast
qed

theorem hidden_field_not_rendered_but_submitted_witness:
  "run plain_registry [Settle 0 (Fulfilled resp_a), Change title_field (JStr ''X'')] (mounted ''/a'')
     = Some \<lparr>comp = state_a\<lparr>recordData := Some [(''title'', JStr ''X'')]\<rparr>, inflight = []\<rparr>
   \<and> recordDataModel (state_a\<lparr>recordData := Some [(''title'', JStr ''X'')]\<rparr>) = Some sample_model
   \<and> path_field \<in> set (model_fields sample_model)
   \<and> isHiddenField (name path_field)
   \<and> render plain_registry (state_a\<lparr>recordData := Some [(''title'', JStr ''X'')]\<rparr>)
     = Inr (Some \<lparr>heading_label = Some ''A'',
                  form = [None,
                          Some \<lparr>key = ''title'', className = ''field'', dt = ''Title'',
                                value_prop = JStr ''X'', onChange = title_field,
                                type_prop = ''string''\<rparr>,
                          Some \<lparr>key = ''count'', className = ''field'', dt = ''Count'',
                                value_prop = JStr [], onChange = count_field,
                                type_prop = ''integer''\<rparr>]\<rparr>)
   \<and> getValues plain_registry (state_a\<lparr>recordData := Some [(''title'', JStr ''X'')]\<rparr>)
     = Inr [(''_path'', JStr ''/a''), (''title'', JStr ''X''), (''count'', JNum 0)]
   \<and> jsget (data resp_a) (name path_field) = JStr ''/a''"
proof -
  have h: "run plain_registry [Settle 0 (Fulfilled resp_a), Change title_field (JStr ''X'')]
             (mounted ''/a'')
           = Some \<lparr>comp = state_a\<lparr>recordData := Some [(''title'', JStr ''X'')]\<rparr>, inflight = []\<rparr>"
    by (simp add: world_defs sample_defs render_defs handler_bound_def update_defs)
  have m: "recordDataModel (comp \<lparr>comp = state_a\<lparr>recordData := Some [(''title'', JStr ''X'')]\<rparr>,
               inflight = []\<rparr>) = Some sample_model"
    by (simp add: sample_defs)
  have f: "path_field \<in> set (model_fields sample_model)" by (simp add: sample_defs)
  have i: "isHiddenField (name path_field)" by (simp add: sample_defs isHiddenField_def)
  from h f i hidden_field_not_rendered_but_submitted [OF h m f i] show ?thesis
    by (simp add: sample_defs render_defs getValues_def getValue_def jsset_def)
qed

subsection \<open>Edit capture\<close>










subsection \<open>Breadcrumbs\<close>

lemma map_crumbs_eq:
  "map_crumbs E target xs l = (map (crumb E target) xs, if xs = [] then l else Some (last xs))"
  by (induction xs arbitrary: l) (simp_all add: Let_def)

text \<open>
  C3, as stated, fails. When the response of \<^verbatim>\<open>/pathinfo\<close> has an empty list of segments,
  the state holds path info with no segments and the trail is empty: the \<^verbatim>\<open><ul>\<close> holds
  the children slot, the space and the closing item, and no fallback link.
\<close>

theorem empty_segments_empty_trail:
  "updateCrumbs (Some ''/'') \<lparr>recordPathInfo = None\<rparr> = (\<lparr>recordPathInfo = None\<rparr>, Some ''/'')
   \<and> promise_then (updateCrumbs_then ''/'') (Fulfilled \<lparr>resp_segments = []\<rparr>)
        \<lparr>recordPathInfo = None\<rparr>
       = \<lparr>recordPathInfo = Some \<lparr>info_path = ''/'', segments = []\<rparr>\<rparr>
   \<and> fst (build_crumbs sample_env \<lparr>recordPathInfo = Some \<lparr>info_path = ''/'', segments = []\<rparr>\<rparr>)
       = ([] :: unit node list)
   \<and> BreadCrumbs_render sample_env () \<lparr>recordPathInfo = Some \<lparr>info_path = ''/'', segments = []\<rparr>\<rparr>
       = [Children (), Space, Meta ''PUBLISH'' ''RETURN_TO_WEBSITE'']"
  by (simp add: updateCrumbs_def updateCrumbs_then_def build_crumbs_def BreadCrumbs_render_def
      sample_env_def)

text \<open>
  C3, amended. The fallback is for path info that is not there: when \<^verbatim>\<open>recordPathInfo\<close> is
  null the trail is exactly one entry, the link to \<^verbatim>\<open>edit\<close> with path \<^verbatim>\<open>root\<close>. When path
  info is loaded the trail has one entry for each segment, which for no segments is none.
\<close>

theorem fallback_only_without_path_info:
  "fst (build_crumbs E \<lparr>recordPathInfo = None\<rparr>)
     = [Li None None \<lparr>link_to = ''edit'', link_path = Some ''root'',
                      link_text = trans E ''BACK_TO_OVERVIEW''\<rparr>]
   \<and> length (fst (build_crumbs E \<lparr>recordPathInfo = Some info\<rparr>)) = length (segments info)"
  by (simp add: build_crumbs_def map_crumbs_eq)

text \<open>
  C9. With path info loaded and at least one segment, the items of the rendered list that
  link to \<^verbatim>\<open>add-child\<close> are: exactly one, with the path of the last segment qualified by
  the alt, when \<^verbatim>\<open>can_have_children\<close> of the last segment is true; none when it is false.
\<close>

theorem add_child_iff_last_can_have_children:
  assumes "recordPathInfo st = Some info" and "segments info \<noteq> []"
  shows "filter is_add_child (BreadCrumbs_render E c st) =
           (if can_have_children (last (segments info))
            then [Li None (Some ''new-record-crumb'')
                     \<lparr>link_to = ''add-child'',
                      link_path = Some (getUrlRecordPathWithAlt E (seg_path (last (segments info)))),
                      link_text = ''+''\<rparr>]
            else [])"
proof -
  let ?target = "if isRecordPreviewActive E then ''preview'' else ''edit''"
  have b: "build_crumbs E st = (map (crumb E ?target) (segments info), Some (last (segments info)))"
    using assms by (simp add: build_crumbs_def map_crumbs_eq)
  have "\<not> is_add_child (crumb E ?target item :: 'a node)" for item
    by (simp add: crumb_def)
  then have f: "filter is_add_child (map (crumb E ?target) (segments info) :: 'a node list) = []"
    by (simp add: filter_empty_conv)
  show ?thesis
    unfolding BreadCrumbs_render_def b using f by simp
qed

theorem add_child_iff_last_can_have_children_witness:
  "recordPathInfo \<lparr>recordPathInfo = Some \<lparr>info_path = ''/blog'', segments = [root_seg, blog_seg]\<rparr>\<rparr>
     = Some \<lparr>info_path = ''/blog'', segments = [root_seg, blog_seg]\<rparr>
   \<and> segments \<lparr>info_path = ''/blog'', segments = [root_seg, blog_seg]\<rparr> \<noteq> []
   \<and> filter is_add_child (BreadCrumbs_render sample_env ()
        \<lparr>recordPathInfo = Some \<lparr>info_path = ''/blog'', segments = [root_seg, blog_seg]\<rparr>\<rparr>)
     = [Li None (Some ''new-record-crumb'')
           \<lparr>link_to = ''add-child'', link_path = Some ''/blog'', link_text = ''+''\<rparr>]
   \<and> filter is_add_child (BreadCrumbs_render sample_env ()
        \<lparr>recordPathInfo = Some \<lparr>info_path = ''/logo.png'', segments = [root_seg, logo_seg]\<rparr>\<rparr>)
     = []"
proof -
  have 1: "recordPathInfo \<lparr>recordPathInfo = Some \<lparr>info_path = ''/blog'', segments = [root_seg, blog_seg]\<rparr>\<rparr>
     = Some \<lparr>info_path = ''/blog'', segments = [root_seg, blog_seg]\<rparr>" by simp
  have 2: "segments \<lparr>info_path = ''/blog'', segments = [root_seg, blog_seg]\<rparr> \<noteq> []" by simp
  have 3: "recordPathInfo \<lparr>recordPathInfo = Some \<lparr>info_path = ''/logo.png'', segments = [root_seg, logo_seg]\<rparr>\<rparr>
     = Some \<lparr>info_path = ''/logo.png'', segments = [root_seg, logo_seg]\<rparr>" by simp
  have 4: "segments \<lparr>info_path = ''/logo.png'', segments = [root_seg, logo_seg]\<rparr> \<noteq> []" by simp
  from add_child_iff_last_can_have_children [OF 1 2, of sample_env "()"]
    add_child_iff_last_can_have_children [OF 3 4, of sample_env "()"]
  show ?thesis
    by (simp add: sample_env_def blog_seg_def logo_seg_def)
qed

end
